theory Spec2Isabelle
  imports Complex_Main
begin

section \<open>Consensus ADMM (cvxconsensus/consensus.py): numeric model\<close>

text \<open>
  Floating-point numbers are modelled by the reals: rounding, overflow and signed zeros
  are outside the model. NumPy arrays are modelled as lists of reals (an array of any
  shape taken in row-major order), since the source only uses elementwise operations,
  \<open>np.sum\<close> over all entries and the default norm of \<open>np.linalg.norm\<close>.

  Two kinds of failure are kept apart, as Python keeps them apart:
  \<^item> an exception that is raised (\<open>py_exn\<close>, the left summand of a result);
  \<^item> a NumPy scalar operation that real arithmetic leaves undefined (a division by
    zero, the square root of a negative number). NumPy raises nothing there: it prints a
    RuntimeWarning and goes on with \<open>inf\<close> or \<open>nan\<close>. The model writes \<open>None\<close> for
    such a value and for every value computed from one; \<open>Some r\<close> is the real \<open>r\<close>.
\<close>

datatype py_exn = ValueError | ZeroDivisionError | KeyError | RuntimeError

type_synonym vec = "real list"

type_synonym npfloat = "real option"

definition eps_fl :: real where
  \<comment> \<open>\<open>np.finfo(float).eps\<close>, the machine epsilon of binary64\<close>
  "eps_fl = 1 / 2 ^ 52"

definition np_sum :: "vec \<Rightarrow> real" where
  "np_sum v = sum_list v"

definition sq :: "vec \<Rightarrow> vec" where
  \<comment> \<open>\<open>v**2\<close>\<close>
  "sq v = map (\<lambda>x. x * x) v"

definition vmul :: "vec \<Rightarrow> vec \<Rightarrow> py_exn + vec" where
  \<comment> \<open>\<open>p*d\<close> on one-dimensional arrays: elementwise on equal lengths, an array of
      length one is broadcast, any other pair of lengths raises ValueError\<close>
  "vmul p d =
     (if length p = length d then Inr (map2 (*) p d)
      else if length p = 1 then Inr (map (\<lambda>y. hd p * y) d)
      else if length d = 1 then Inr (map (\<lambda>x. x * hd d) p)
      else Inl ValueError)"

definition np_norm :: "vec \<Rightarrow> real" where
  \<comment> \<open>\<open>np.linalg.norm\<close> with its default arguments\<close>
  "np_norm v = sqrt (np_sum (sq v))"

definition fdiv :: "real \<Rightarrow> real \<Rightarrow> npfloat" where
  \<comment> \<open>division of NumPy scalars\<close>
  "fdiv a b = (if b = 0 then None else Some (a / b))"

definition fmul :: "npfloat \<Rightarrow> npfloat \<Rightarrow> npfloat" where
  "fmul a b = (case a of None \<Rightarrow> None
               | Some x \<Rightarrow> (case b of None \<Rightarrow> None | Some y \<Rightarrow> Some (x * y)))"

definition np_sqrt :: "npfloat \<Rightarrow> npfloat" where
  "np_sqrt a = (case a of None \<Rightarrow> None
                | Some x \<Rightarrow> if x < 0 then None else Some (sqrt x))"

subsection \<open>Spectral step size\<close>

definition step_ls :: "vec \<Rightarrow> vec \<Rightarrow> py_exn + npfloat" where
  "step_ls p d =
     (case vmul p d of
        Inl e \<Rightarrow> Inl e
      | Inr pd \<Rightarrow>
          Inr (case fdiv (np_sum (sq d)) (np_sum pd) of
                 None \<Rightarrow> None
               | Some sd \<Rightarrow>
                   (case fdiv (np_sum pd) (np_sum (sq p)) of
                      None \<Rightarrow> None
                    | Some mg \<Rightarrow> if 2 * mg > sd then Some mg else Some (sd - mg / 2))))"

definition step_cor :: "vec \<Rightarrow> vec \<Rightarrow> py_exn + npfloat" where
  "step_cor p d =
     (case vmul p d of
        Inl e \<Rightarrow> Inl e
      | Inr pd \<Rightarrow> Inr (fdiv (np_sum pd) (np_norm p * np_norm d)))"

definition step_safe ::
  "real \<Rightarrow> npfloat \<Rightarrow> npfloat \<Rightarrow> npfloat \<Rightarrow> npfloat \<Rightarrow> real \<Rightarrow> npfloat" where
  \<comment> \<open>the estimates \<open>a\<close>, \<open>b\<close> are only looked at in the branch that returns them\<close>
  "step_safe rho a b a_cor b_cor eps =
     (case a_cor of
        None \<Rightarrow> None
      | Some ac \<Rightarrow>
          (case b_cor of
             None \<Rightarrow> None
           | Some bc \<Rightarrow>
               if ac > eps \<and> bc > eps then np_sqrt (fmul a b)
               else if ac > eps \<and> bc \<le> eps then a
               else if ac \<le> eps \<and> bc > eps then b
               else Some rho))"

definition small_norm :: "vec \<Rightarrow> vec \<Rightarrow> vec \<Rightarrow> vec \<Rightarrow> bool" where
  \<comment> \<open>the condition of the first \<open>if\<close> of \<open>step_spec\<close>\<close>
  "small_norm dx dxbar dy dyhat \<longleftrightarrow>
     np_sum (sq dx) \<le> eps_fl \<or> np_sum (sq dxbar) \<le> eps_fl \<or>
     np_sum (sq dy) \<le> eps_fl \<or> np_sum (sq dyhat) \<le> eps_fl"

definition clamp :: "real \<Rightarrow> real \<Rightarrow> npfloat \<Rightarrow> npfloat" where
  \<comment> \<open>\<open>max(min(rho_hat, scale*rho), rho/scale)\<close>, the quotient already computed\<close>
  "clamp hi lo rho_hat = (case rho_hat of None \<Rightarrow> None | Some r \<Rightarrow> Some (max (min r hi) lo))"

definition step_spec ::
  "real \<Rightarrow> int \<Rightarrow> vec \<Rightarrow> vec \<Rightarrow> vec \<Rightarrow> vec \<Rightarrow> real \<Rightarrow> real \<Rightarrow> py_exn + npfloat" where
  "step_spec rho k dx dxbar dy dyhat eps C =
     (if small_norm dx dxbar dy dyhat then Inr (Some rho)
      else
        (case step_ls dx dyhat of Inl e \<Rightarrow> Inl e | Inr a_hat \<Rightarrow>
        (case step_ls dxbar dy of Inl e \<Rightarrow> Inl e | Inr b_hat \<Rightarrow>
        (case step_cor dx dyhat of Inl e \<Rightarrow> Inl e | Inr a_cor \<Rightarrow>
        (case step_cor dxbar dy of Inl e \<Rightarrow> Inl e | Inr b_cor \<Rightarrow>
          (if k = 0 then Inl ZeroDivisionError
           else
             (let scale = 1 + C / (1 * (of_int k)\<^sup>2);
                  rho_hat = step_safe rho a_hat b_hat a_cor b_cor eps
              in if scale = 0 then Inl ZeroDivisionError
                 else Inr (clamp (scale * rho) (rho / scale) rho_hat))))))))"

subsection \<open>Aggregator\<close>

text \<open>
  A worker's report is the triple \<open>(status, rho, xvals)\<close> of \<open>run_worker\<close>. The
  dictionary \<open>xvals\<close> is iterated, so it is the list of its items; \<open>rho\<close> is only looked
  up. The list \<open>s.INF_OR_UNB\<close> belongs to the solver library and is a parameter here,
  with the type of statuses.
\<close>

type_synonym ('st, 'k) report = "'st \<times> ('k \<rightharpoonup> real) \<times> ('k \<times> vec) list"

definition smul :: "real \<Rightarrow> vec \<Rightarrow> vec" where
  \<comment> \<open>scalar times array\<close>
  "smul r v = map (\<lambda>x. r * x) v"

fun append_at :: "'k \<Rightarrow> 'v \<Rightarrow> ('k \<times> 'v list) list \<Rightarrow> ('k \<times> 'v list) list" where
  \<comment> \<open>\<open>xmerge[key].append(v)\<close> on a \<open>defaultdict(list)\<close>, keys in insertion order\<close>
  "append_at key v [] = [(key, [v])]"
| "append_at key v ((k, vs) # rest) =
     (if k = key then (k, vs @ [v]) # rest else (k, vs) # append_at key v rest)"

fun merge_items ::
  "('k \<rightharpoonup> real) \<Rightarrow> ('k \<times> vec) list \<Rightarrow> ('k \<times> vec list) list \<times> ('k \<Rightarrow> real)
     \<Rightarrow> py_exn + (('k \<times> vec list) list \<times> ('k \<Rightarrow> real))" where
  \<comment> \<open>the inner loop over \<open>xvals.items()\<close>; \<open>rho[key]\<close> raises KeyError on a missing key\<close>
  "merge_items rho [] acc = Inr acc"
| "merge_items rho ((key, val) # rest) (xmerge, rho_sum) =
     (case rho key of
        None \<Rightarrow> Inl KeyError
      | Some r \<Rightarrow>
          merge_items rho rest
            (append_at key (smul r val) xmerge, rho_sum(key := rho_sum key + r)))"

fun merge_reports ::
  "'st list \<Rightarrow> ('st, 'k) report list \<Rightarrow> ('k \<times> vec list) list \<times> ('k \<Rightarrow> real)
     \<Rightarrow> py_exn + (('k \<times> vec list) list \<times> ('k \<Rightarrow> real))" where
  \<comment> \<open>the loop over \<open>prox_res\<close>\<close>
  "merge_reports INF_OR_UNB [] acc = Inr acc"
| "merge_reports INF_OR_UNB ((status, rho, xvals) # rest) acc =
     (if status \<in> set INF_OR_UNB then Inl RuntimeError
      else case merge_items rho xvals acc of
             Inl e \<Rightarrow> Inl e
           | Inr acc' \<Rightarrow> merge_reports INF_OR_UNB rest acc')"

definition sum_axis0 :: "vec list \<Rightarrow> py_exn + vec" where
  \<comment> \<open>\<open>np.sum(np.array(xlist), axis = 0)\<close> on a non-empty list of arrays: arrays of
      different lengths do not form an array and are modelled as a ValueError\<close>
  "sum_axis0 xlist =
     (if list_all (\<lambda>v. length v = length (hd xlist)) xlist
      then Inr (map (\<lambda>i. sum_list (map (\<lambda>v. v ! i) xlist)) [0..<length (hd xlist)])
      else Inl ValueError)"

definition vdiv :: "vec \<Rightarrow> real \<Rightarrow> vec option" where
  \<comment> \<open>array divided by a scalar; \<open>None\<close>: the entries are \<open>inf\<close> or \<open>nan\<close>\<close>
  "vdiv v r = (if r = 0 \<and> v \<noteq> [] then None else Some (map (\<lambda>x. x / r) v))"

fun average_items ::
  "('k \<Rightarrow> real) \<Rightarrow> ('k \<times> vec list) list \<Rightarrow> py_exn + ('k \<times> vec option) list" where
  \<comment> \<open>the dictionary comprehension of the \<open>return\<close>\<close>
  "average_items rho_sum [] = Inr []"
| "average_items rho_sum ((key, xlist) # rest) =
     (case sum_axis0 xlist of
        Inl e \<Rightarrow> Inl e
      | Inr s \<Rightarrow>
          (case average_items rho_sum rest of
             Inl e \<Rightarrow> Inl e
           | Inr m \<Rightarrow> Inr ((key, vdiv s (rho_sum key)) # m)))"

definition x_average ::
  "'st list \<Rightarrow> ('st, 'k) report list \<Rightarrow> py_exn + ('k \<times> vec option) list" where
  "x_average INF_OR_UNB prox_res =
     (case merge_reports INF_OR_UNB prox_res ([], \<lambda>key. 0) of
        Inl e \<Rightarrow> Inl e
      | Inr (xmerge, rho_sum) \<Rightarrow> average_items rho_sum xmerge)"

text \<open>
  What the specification asks of the aggregate of one variable id: the reports that
  contain the id, their step sizes and values for it, and the weighted average.
\<close>

definition owners :: "'k \<Rightarrow> ('st, 'k) report list \<Rightarrow> ('st, 'k) report list" where
  "owners key prox_res = filter (\<lambda>(status, rho, xvals). key \<in> fst ` set xvals) prox_res"

definition rho_of :: "'k \<Rightarrow> ('st, 'k) report \<Rightarrow> real" where
  "rho_of key rep = (case rep of (status, rho, xvals) \<Rightarrow> the (rho key))"

definition x_of :: "'k \<Rightarrow> ('st, 'k) report \<Rightarrow> vec" where
  "x_of key rep = (case rep of (status, rho, xvals) \<Rightarrow> the (map_of xvals key))"

definition weighted_average :: "'k \<Rightarrow> ('st, 'k) report list \<Rightarrow> nat \<Rightarrow> npfloat" where
  \<comment> \<open>entry \<open>i\<close> of \<open>sum (rho * x) / sum rho\<close> over the owners of \<open>key\<close>\<close>
  "weighted_average key prox_res i =
     fdiv (\<Sum>rep \<leftarrow> owners key prox_res. rho_of key rep * x_of key rep ! i)
          (\<Sum>rep \<leftarrow> owners key prox_res. rho_of key rep)"

definition has_step_sizes :: "('st, 'k) report \<Rightarrow> bool" where
  \<comment> \<open>\<open>rho\<close> has every key of \<open>xvals\<close>, as in \<open>run_worker\<close>, where both dictionaries
      are built over the variables of the worker's problem\<close>
  "has_step_sizes rep =
     (case rep of (status, rho, xvals) \<Rightarrow> list_all (\<lambda>(key, val). rho key \<noteq> None) xvals)"

definition well_formed :: "('k \<Rightarrow> nat) \<Rightarrow> ('st, 'k) report \<Rightarrow> bool" where
  \<comment> \<open>a report as \<open>run_worker\<close> builds it: moreover \<open>xvals\<close> is a dictionary (no key
      twice), and the value of a variable has the shape of the variable\<close>
  "well_formed shape rep =
     (case rep of (status, rho, xvals) \<Rightarrow>
        has_step_sizes rep \<and> distinct (map fst xvals) \<and>
        list_all (\<lambda>(key, val). length val = shape key) xvals)"

definition feasible :: "'st list \<Rightarrow> ('st, 'k) report \<Rightarrow> bool" where
  \<comment> \<open>the status is not in \<open>s.INF_OR_UNB\<close>\<close>
  "feasible INF_OR_UNB rep = (case rep of (status, rho, xvals) \<Rightarrow> status \<notin> set INF_OR_UNB)"

text \<open>For the proofs: the entry of a key in \<open>xmerge\<close>, and the pairs of step size and
  value that the items of a report, and a list of reports, hold for a key.\<close>

definition entry :: "('k \<times> 'v list) list \<Rightarrow> 'k \<Rightarrow> 'v list" where
  "entry xmerge key = (case map_of xmerge key of None \<Rightarrow> [] | Some l \<Rightarrow> l)"

definition item_terms :: "('k \<rightharpoonup> real) \<Rightarrow> ('k \<times> vec) list \<Rightarrow> 'k \<Rightarrow> (real \<times> vec) list" where
  "item_terms rho xvals key =
     map (\<lambda>(k, val). (the (rho k), val)) (filter (\<lambda>(k, val). k = key) xvals)"

definition report_terms :: "('st, 'k) report list \<Rightarrow> 'k \<Rightarrow> (real \<times> vec) list" where
  "report_terms prox_res key =
     concat (map (\<lambda>(status, rho, xvals). item_terms rho xvals key) prox_res)"

subsection \<open>Stopping rule\<close>



subsection \<open>Worker: the update of one variable in one round\<close>

text \<open>
  The body of the loop \<open>for key in v.keys()\<close> of \<open>run_worker\<close>, without the sums of
  squares it adds to \<open>ssq\<close> (they do not change the variable's state). The variable,
  its parameters and the consensus value \<open>xbars[key]\<close> have the shape of the variable,
  so the arrays met here have equal lengths; \<open>x\<close> has a value, the proximal problem having
  been solved.

  Line 286 updates the parameter \<open>y\<close> with \<open>+=\<close>, which changes a NumPy array in
  place. A name bound to \<open>v[key]["y"].value\<close> before an update (\<open>y_old\<close> on line
  283, \<open>v_old[key]["y"]\<close> on line 313) is the parameter's own array when \<open>.value\<close>
  hands out the array the parameter stores, as the solver library's does, and then it
  reads the updated value afterwards. This is the case \<open>shares = True\<close> of the model;
  \<open>shares = False\<close> is the case of a \<open>.value\<close> that gives a copy, kept for comparison.
  The other entries are rebound to new arrays (\<open>xbar\<close> on line 285, \<open>x\<close> by the
  solver), never changed in place.

  After line 299 the entry \<open>yhat\<close> is no longer a parameter: it is the expression
  \<open>y_old + rho*(x - xbar_old)\<close> over the parameter \<open>rho\<close> and the variable \<open>x\<close>. The
  two arrays enter it as constants, with the values they have on line 299 (for \<open>y_old\<close>,
  after the update of line 286); its \<open>.value\<close> is computed from the values of \<open>rho\<close>
  and \<open>x\<close> when it is read, as the value of the objective built in \<open>prox_step\<close> follows
  the parameters from round to round. So the \<open>yhat\<close> of the deltas (line 305) is
  computed with the step size of before the call of \<open>step_spec\<close>, and the \<open>yhat\<close> of
  the new baseline (line 314) with the one after.
\<close>

definition vadd :: "vec \<Rightarrow> vec \<Rightarrow> vec" where
  "vadd u w = map2 (+) u w"

definition vsub :: "vec \<Rightarrow> vec \<Rightarrow> vec" where
  "vsub u w = map2 (-) u w"

definition vneg :: "vec \<Rightarrow> vec" where
  "vneg u = map uminus u"

datatype y_ref = Own vec | Shared

datatype yhat_entry = YhatParam vec | YhatExpr vec vec

record var_state =
  v_x :: vec
  v_xbar :: vec
  v_y :: vec
  v_rho :: real
  v_yhat :: yhat_entry

record baseline =
  old_x :: vec
  old_xbar :: vec
  old_y :: y_ref
  old_yhat :: vec

definition read_y :: "bool \<Rightarrow> var_state \<Rightarrow> y_ref" where
  \<comment> \<open>what a name bound to \<open>v[key]["y"].value\<close> holds\<close>
  "read_y shares v = (if shares then Shared else Own (v_y v))"

definition deref :: "var_state \<Rightarrow> y_ref \<Rightarrow> vec" where
  \<comment> \<open>the array such a name reads, in the state \<open>v\<close>\<close>
  "deref v r = (case r of Own a \<Rightarrow> a | Shared \<Rightarrow> v_y v)"

definition yhat_value :: "var_state \<Rightarrow> vec" where
  \<comment> \<open>\<open>v[key]["yhat"].value\<close>\<close>
  "yhat_value v =
     (case v_yhat v of
        YhatParam val \<Rightarrow> val
      | YhatExpr y_old xbar_old \<Rightarrow> vadd y_old (smul (v_rho v) (vsub (v_x v) xbar_old)))"

definition dual_update :: "vec \<Rightarrow> var_state \<Rightarrow> var_state" where
  \<comment> \<open>lines 285 and 286: \<open>xbar\<close> takes the consensus value, then \<open>y += rho*(x - xbar)\<close>\<close>
  "dual_update xbars_key v =
     (let v1 = v\<lparr>v_xbar := xbars_key\<rparr>
      in v1\<lparr>v_y := vadd (v_y v1) (smul (v_rho v1) (vsub (v_x v1) (v_xbar v1)))\<rparr>)"

definition deltas :: "var_state \<Rightarrow> baseline \<Rightarrow> vec \<times> vec \<times> vec \<times> vec" where
  \<comment> \<open>lines 302 to 305: \<open>(dx, dxbar, dy, dyhat)\<close>\<close>
  "deltas v v_old =
     (vsub (v_x v) (old_x v_old),
      vadd (vneg (v_xbar v)) (old_xbar v_old),
      vsub (v_y v) (deref v (old_y v_old)),
      vsub (yhat_value v) (old_yhat v_old))"

definition claimed_yhat :: "var_state \<Rightarrow> vec" where
  \<comment> \<open>the \<open>yhat\<close> of the specification, on the state before the update:
      \<open>y_old + rho*(x - xbar_old)\<close> from the \<open>y\<close> and \<open>xbar\<close> of before the update\<close>
  "claimed_yhat v = vadd (v_y v) (smul (v_rho v) (vsub (v_x v) (v_xbar v)))"

definition claimed_deltas ::
  "vec \<Rightarrow> var_state \<Rightarrow> vec \<Rightarrow> vec \<Rightarrow> vec \<Rightarrow> vec \<Rightarrow> vec \<times> vec \<times> vec \<times> vec" where
  \<comment> \<open>the deltas in the words of the specification, on the state before the update
      and the values \<open>sx\<close>, \<open>sxbar\<close>, \<open>sy\<close>, \<open>syhat\<close> snapshotted at the previous
      adaptation: each delta is the current value minus the snapshot\<close>
  "claimed_deltas xbars_key v sx sxbar sy syhat =
     (vsub (v_x v) sx,
      vsub xbars_key sxbar,
      vsub (vadd (v_y v) (smul (v_rho v) (vsub (v_x v) xbars_key))) sy,
      vsub (claimed_yhat v) syhat)"

definition snapshot :: "bool \<Rightarrow> var_state \<Rightarrow> baseline" where
  \<comment> \<open>lines 311 to 314\<close>
  "snapshot shares v =
     \<lparr>old_x = v_x v, old_xbar = v_xbar v, old_y = read_y shares v, old_yhat = yhat_value v\<rparr>"

datatype failure = Raised py_exn | NonFiniteStep

definition update_key ::
  "bool \<Rightarrow> bool \<Rightarrow> int \<Rightarrow> real \<Rightarrow> real \<Rightarrow> int \<Rightarrow> vec \<Rightarrow> var_state \<times> baseline
     \<Rightarrow> failure + var_state \<times> baseline" where
  \<comment> \<open>\<open>NonFiniteStep\<close>: \<open>step_spec\<close> gave \<open>inf\<close> or \<open>nan\<close>; the run is not followed
      further\<close>
  "update_key shares spectral Tf eps C i xbars_key st =
     (case st of (v, v_old) \<Rightarrow>
        let xbar_old = v_xbar v;
            y_old = read_y shares v;
            v1 = dual_update xbars_key v
        in if \<not> spectral then Inr (v1, v_old)
           else if Tf = 0 then Inl (Raised ZeroDivisionError)
           else if i mod Tf = 1 then
             (let v2 = v1\<lparr>v_yhat := YhatExpr (deref v1 y_old) xbar_old\<rparr>
              in case deltas v2 v_old of (dx, dxbar, dy, dyhat) \<Rightarrow>
                   (case step_spec (v_rho v2) i dx dxbar dy dyhat eps C of
                      Inl e \<Rightarrow> Inl (Raised e)
                    | Inr None \<Rightarrow> Inl NonFiniteStep
                    | Inr (Some r) \<Rightarrow>
                        (let v3 = v2\<lparr>v_rho := r\<rparr> in Inr (v3, snapshot shares v3))))
           else Inr (v1, v_old))"

section \<open>Properties of the spectral step size\<close>

subsection \<open>Auxiliary facts\<close>

lemma eps_fl_pos: "0 < eps_fl"
  by (simp add: eps_fl_def)

lemma np_sum_sq_nonneg: "0 \<le> np_sum (sq v)"
  unfolding np_sum_def sq_def by (induction v) simp_all

lemma step_ls_value:
  assumes "vmul p d = Inr pd" "np_sum pd \<noteq> 0" "np_sum (sq p) \<noteq> 0"
  shows "step_ls p d =
           Inr (Some (if 2 * (np_sum pd / np_sum (sq p)) > np_sum (sq d) / np_sum pd
                      then np_sum pd / np_sum (sq p)
                      else np_sum (sq d) / np_sum pd - np_sum pd / np_sum (sq p) / 2))"
  using assms by (simp add: step_ls_def fdiv_def)

lemma ls_choice_pos:
  fixes sd mg :: real
  assumes "0 < sd" "0 < mg"
  shows "0 < (if 2 * mg > sd then mg else sd - mg / 2)"
  using assms by (simp add: not_less)

lemma step_ls_pos:
  assumes "vmul p d = Inr pd" "0 < np_sum pd" "0 < np_sum (sq p)" "0 < np_sum (sq d)"
  shows "\<exists>a. 0 < a \<and> step_ls p d = Inr (Some a)"
proof -
  have sd: "0 < np_sum (sq d) / np_sum pd" and mg: "0 < np_sum pd / np_sum (sq p)"
    using assms by simp_all
  have "step_ls p d =
           Inr (Some (if 2 * (np_sum pd / np_sum (sq p)) > np_sum (sq d) / np_sum pd
                      then np_sum pd / np_sum (sq p)
                      else np_sum (sq d) / np_sum pd - np_sum pd / np_sum (sq p) / 2))"
    using step_ls_value[OF assms(1)] assms(2,3) by simp
  with ls_choice_pos[OF sd mg] show ?thesis by blast
qed

lemma step_ls_total: "vmul p d = Inr pd \<Longrightarrow> \<exists>a. step_ls p d = Inr a"
  by (simp add: step_ls_def)

lemma step_cor_value:
  assumes "vmul p d = Inr pd" "0 < np_sum (sq p)" "0 < np_sum (sq d)"
  shows "step_cor p d = Inr (Some (np_sum pd / (np_norm p * np_norm d)))"
    and "0 < np_norm p * np_norm d"
proof -
  have np: "0 < np_norm p" and nd: "0 < np_norm d"
    using assms(2,3) by (simp_all add: np_norm_def)
  then show "0 < np_norm p * np_norm d" by simp
  from np nd show "step_cor p d = Inr (Some (np_sum pd / (np_norm p * np_norm d)))"
    using assms(1) by (simp add: step_cor_def fdiv_def)
qed

lemma cor_pos_imp_dot_pos:
  fixes s n :: real
  assumes "0 < n" "0 < s / n"
  shows "0 < s"
  using assms by (simp add: zero_less_divide_iff)

lemma step_safe_defined:
  assumes "0 \<le> eps"
    and "\<And>ac. a_cor = Some ac \<Longrightarrow> eps < ac \<Longrightarrow> \<exists>x. 0 < x \<and> a = Some x"
    and "\<And>bc. b_cor = Some bc \<Longrightarrow> eps < bc \<Longrightarrow> \<exists>x. 0 < x \<and> b = Some x"
    and "a_cor = Some ac0" "b_cor = Some bc0"
  shows "\<exists>r. step_safe rho a b a_cor b_cor eps = Some r"
proof -
  consider (both) "eps < ac0" "eps < bc0" | (onlya) "eps < ac0" "bc0 \<le> eps"
    | (onlyb) "ac0 \<le> eps" "eps < bc0" | (none) "ac0 \<le> eps" "bc0 \<le> eps"
    by linarith
  then show ?thesis
  proof cases
    case both
    from assms(2)[OF assms(4) both(1)] obtain x where x: "0 < x" "a = Some x" by blast
    from assms(3)[OF assms(5) both(2)] obtain y where y: "0 < y" "b = Some y" by blast
    have "\<not> x * y < 0" using x(1) y(1) by (simp add: not_less)
    then show ?thesis using both x y assms(4,5)
      by (simp add: step_safe_def fmul_def np_sqrt_def)
  next
    case onlya
    from assms(2)[OF assms(4) onlya(1)] obtain x where x: "0 < x" "a = Some x" by blast
    then show ?thesis using onlya assms(4,5) by (simp add: step_safe_def)
  next
    case onlyb
    from assms(3)[OF assms(5) onlyb(2)] obtain y where y: "0 < y" "b = Some y" by blast
    then show ?thesis using onlyb assms(4,5) by (simp add: step_safe_def)
  next
    case none
    then show ?thesis using assms(4,5) by (simp add: step_safe_def)
  qed
qed


lemma not_small_norm_pos:
  assumes "\<not> small_norm dx dxbar dy dyhat"
  shows "0 < np_sum (sq dx)" "0 < np_sum (sq dxbar)" "0 < np_sum (sq dy)" "0 < np_sum (sq dyhat)"
  using assms eps_fl_pos unfolding small_norm_def by linarith+

lemma estimate_pos_if_correlated:
  assumes v: "vmul p d = Inr pd" and p: "0 < np_sum (sq p)" and d: "0 < np_sum (sq d)"
    and e: "0 \<le> eps"
  obtains c a where "step_cor p d = Inr (Some c)" "step_ls p d = Inr a"
    "eps < c \<Longrightarrow> \<exists>x. 0 < x \<and> a = Some x"
proof -
  let ?c = "np_sum pd / (np_norm p * np_norm d)"
  have c: "step_cor p d = Inr (Some ?c)" and n: "0 < np_norm p * np_norm d"
    using step_cor_value[OF v p d] by auto
  obtain a where a: "step_ls p d = Inr a" using step_ls_total[OF v] by blast
  have "\<exists>x. 0 < x \<and> a = Some x" if "eps < ?c"
  proof -
    from that e have "0 < ?c" by linarith
    then have "0 < np_sum pd" using n by (rule cor_pos_imp_dot_pos[rotated])
    from step_ls_pos[OF v this p d] a show ?thesis by simp
  qed
  with c a that show thesis by blast
qed

lemma step_spec_total:
  assumes v1: "vmul dx dyhat = Inr pd1" and v2: "vmul dxbar dy = Inr pd2"
    and k: "k \<noteq> 0" and s: "1 + C / (of_int k)\<^sup>2 \<noteq> (0::real)" and e: "0 \<le> eps"
  shows "\<exists>r. step_spec rho k dx dxbar dy dyhat eps C = Inr (Some r)"
proof (cases "small_norm dx dxbar dy dyhat")
  case True
  then show ?thesis by (simp add: step_spec_def)
next
  case False
  note pos = not_small_norm_pos[OF False]
  obtain ac a where a: "step_cor dx dyhat = Inr (Some ac)" "step_ls dx dyhat = Inr a"
    "eps < ac \<Longrightarrow> \<exists>x. 0 < x \<and> a = Some x"
    using estimate_pos_if_correlated[OF v1 pos(1) pos(4) e] by blast
  obtain bc b where b: "step_cor dxbar dy = Inr (Some bc)" "step_ls dxbar dy = Inr b"
    "eps < bc \<Longrightarrow> \<exists>x. 0 < x \<and> b = Some x"
    using estimate_pos_if_correlated[OF v2 pos(2) pos(3) e] by blast
  obtain rh where rh: "step_safe rho a b (Some ac) (Some bc) eps = Some rh"
    using step_safe_defined[of eps "Some ac" a "Some bc" b ac bc rho] e a(3) b(3) by auto
  show ?thesis
    using False a(1,2) b(1,2) k s rh by (simp add: step_spec_def clamp_def Let_def)
qed

lemma clamp_bounds:
  assumes "lo \<le> hi" "clamp hi lo x = Some r"
  shows "lo \<le> r \<and> r \<le> hi"
  using assms by (auto simp: clamp_def split: option.splits)

lemma div_le_mult_scale:
  fixes rho s :: real
  assumes "0 < rho" "1 \<le> s"
  shows "rho / s \<le> rho" "rho \<le> s * rho"
proof -
  from assms show "rho / s \<le> rho" by (simp add: pos_divide_le_eq mult_le_cancel_left1)
  from assms show "rho \<le> s * rho" by simp
qed

lemma step_spec_Some_cases:
  assumes "step_spec rho k dx dxbar dy dyhat eps C = Inr (Some r)"
  shows "r = rho \<or>
         (\<exists>x. clamp ((1 + C / (1 * (of_int k)\<^sup>2)) * rho) (rho / (1 + C / (1 * (of_int k)\<^sup>2))) x = Some r)"
proof (cases "small_norm dx dxbar dy dyhat")
  case True
  with assms show ?thesis by (simp add: step_spec_def)
next
  case False
  with assms show ?thesis
    unfolding step_spec_def Let_def
    by (simp split: sum.splits if_splits) blast
qed

lemma step_spec_bounds:
  assumes "0 < rho" "0 \<le> C" "step_spec rho k dx dxbar dy dyhat eps C = Inr (Some r)"
  shows "rho / (1 + C / (of_int k)\<^sup>2) \<le> r \<and> r \<le> rho * (1 + C / (of_int k)\<^sup>2)"
proof -
  define s :: real where "s = 1 + C / (of_int k)\<^sup>2"
  have s1: "1 \<le> s" using assms(2) by (simp add: s_def)
  have lo: "rho / s \<le> rho" and hi: "rho \<le> s * rho"
    using div_le_mult_scale[OF assms(1) s1] by auto
  have lohi: "rho / s \<le> s * rho" using lo hi by linarith
  from step_spec_Some_cases[OF assms(3)]
  have "r = rho \<or> (\<exists>x. clamp (s * rho) (rho / s) x = Some r)"
    by (simp add: s_def)
  then have "rho / s \<le> r \<and> r \<le> s * rho"
  proof
    assume "r = rho" with lo hi show ?thesis by simp
  next
    assume "\<exists>x. clamp (s * rho) (rho / s) x = Some r"
    then obtain x where "clamp (s * rho) (rho / s) x = Some r" ..
    from clamp_bounds[OF lohi this] show ?thesis .
  qed
  then have "rho / s \<le> r \<and> r \<le> rho * s" by (simp only: mult.commute[of s rho])
  then show ?thesis unfolding s_def .
qed

lemmas num_defs = eps_fl_def np_sum_def sq_def vmul_def np_norm_def fdiv_def fmul_def np_sqrt_def
  step_ls_def step_cor_def step_safe_def small_norm_def clamp_def

lemmas worker_defs = update_key_def dual_update_def deltas_def yhat_value_def snapshot_def
  read_y_def deref_def
  vadd_def vsub_def vneg_def smul_def

lemma step_spec_example: "step_spec 1 1 [1] [1] [-1] [1] (1/5) 1 = Inr (Some 1)"
  by (simp add: step_spec_def num_defs)

lemma step_spec_example2: "step_spec 1 1 [1] [1] [4] [1] (1/5) 1 = Inr (Some 2)"
  by (simp add: step_spec_def num_defs)

lemma step_spec_pos:
  assumes "0 < rho" "0 \<le> C" "step_spec rho k dx dxbar dy dyhat eps C = Inr (Some r)"
  shows "0 < r"
proof -
  have "0 < 1 + C / (of_int k)\<^sup>2" using assms(2) by (simp add: add_pos_nonneg)
  then have "0 < rho / (1 + C / (of_int k)\<^sup>2)" using assms(1) by simp
  with step_spec_bounds[OF assms] show ?thesis by linarith
qed

lemma dual_update_rho: "v_rho (dual_update xbars_key v) = v_rho v"
  by (simp add: dual_update_def Let_def)

lemma update_key_rho:
  assumes "update_key shares spectral Tf eps C i xbars_key (v, v_old) = Inr (v', v_old')"
  shows "v_rho v' = v_rho v \<or>
         (\<exists>dx dxbar dy dyhat.
            step_spec (v_rho v) i dx dxbar dy dyhat eps C = Inr (Some (v_rho v')))"
proof (cases "spectral \<and> i mod Tf = 1")
  case False
  with assms have "v' = dual_update xbars_key v"
    by (auto simp: update_key_def Let_def split: if_splits)
  then show ?thesis by (simp add: dual_update_rho)
next
  case True
  with assms show ?thesis
    unfolding update_key_def Let_def
    by (auto simp: dual_update_rho split: if_splits prod.splits sum.splits option.splits)
qed

lemma step_spec_example3: "step_spec 1 1 [1] [1] [2] [-3] (1/5) 1 = Inr (Some 2)"
  by (simp add: step_spec_def num_defs)

lemma update_key_example:
  "update_key False True 2 (1/5) 1 1 [-1]
     (\<lparr>v_x = [1], v_xbar = [4], v_y = [0], v_rho = 1, v_yhat = YhatParam [0]\<rparr>,
      \<lparr>old_x = [0], old_xbar = [0], old_y = Own [0], old_yhat = [0]\<rparr>) =
   Inr (\<lparr>v_x = [1], v_xbar = [-1], v_y = [2], v_rho = 2, v_yhat = YhatExpr [0] [4]\<rparr>,
        \<lparr>old_x = [1], old_xbar = [-1], old_y = Own [2], old_yhat = [-6]\<rparr>)"
  by (simp add: worker_defs Let_def vadd_def vsub_def vneg_def smul_def step_spec_example3)

subsection \<open>The claims on the step size\<close>

text \<open>
  C4. For a step size \<open>rho > 0\<close>, a round index \<open>k \<ge> 1\<close> and any delta vectors, the
  value that \<open>step_spec\<close> returns lies in \<open>[rho/(1 + C/k\<^sup>2), rho*(1 + C/k\<^sup>2)]\<close>, for
  the convergence constant \<open>C \<ge> 0\<close>. With a safeguarding threshold \<open>eps \<ge> 0\<close> and
  deltas of equal shapes, \<open>step_spec\<close> does return a number.
\<close>

theorem step_spec_within_interval:
  assumes "0 < rho" and "1 \<le> k" and "0 \<le> C"
  shows "(\<forall>r. step_spec rho k dx dxbar dy dyhat eps C = Inr (Some r) \<longrightarrow>
              rho / (1 + C / (of_int k)\<^sup>2) \<le> r \<and> r \<le> rho * (1 + C / (of_int k)\<^sup>2)) \<and>
         (0 \<le> eps \<and> length dx = length dyhat \<and> length dxbar = length dy \<longrightarrow>
            (\<exists>r. step_spec rho k dx dxbar dy dyhat eps C = Inr (Some r)))"
proof (intro conjI allI impI)
  fix r assume "step_spec rho k dx dxbar dy dyhat eps C = Inr (Some r)"
  from step_spec_bounds[OF assms(1,3) this]
  show "rho / (1 + C / (of_int k)\<^sup>2) \<le> r" and "r \<le> rho * (1 + C / (of_int k)\<^sup>2)"
    by simp_all
next
  assume h: "0 \<le> eps \<and> length dx = length dyhat \<and> length dxbar = length dy"
  then have v1: "vmul dx dyhat = Inr (map2 (*) dx dyhat)"
    and v2: "vmul dxbar dy = Inr (map2 (*) dxbar dy)"
    by (simp_all add: vmul_def)
  have k: "k \<noteq> 0" using assms(2) by simp
  have "0 < 1 + C / (of_int k)\<^sup>2" using assms(3) by (simp add: add_pos_nonneg)
  then have s: "1 + C / (of_int k)\<^sup>2 \<noteq> (0::real)" by simp
  from step_spec_total[OF v1 v2 k s] h
  show "\<exists>r. step_spec rho k dx dxbar dy dyhat eps C = Inr (Some r)" by simp
qed

theorem step_spec_within_interval_witness:
  "(0::real) < 1 \<and> (1::int) \<le> 1 \<and> (0::real) \<le> 1 \<and>
   step_spec 1 1 [1] [1] [-1] [1] (1/5) 1 = Inr (Some 1) \<and>
   1 / (1 + 1 / (of_int 1)\<^sup>2) \<le> (1::real) \<and> (1::real) \<le> 1 * (1 + 1 / (of_int 1)\<^sup>2) \<and>
   (0::real) \<le> 1/5 \<and> length [1::real] = length [1::real] \<and>
   (\<exists>r. step_spec 1 1 [1] [1] [-1] [1] (1/5) 1 = Inr (Some r))"
  using step_spec_within_interval[of 1 1 1 "[1]" "[1]" "[-1]" "[1]" "1/5"] step_spec_example
  by simp

text \<open>
  C5. \<open>step_safe\<close> returns \<open>sqrt(a*b)\<close> when both correlations exceed \<open>eps\<close>, \<open>a\<close>
  when only \<open>a_cor\<close> does, \<open>b\<close> when only \<open>b_cor\<close> does, and \<open>rho\<close> when neither
  does. The square root is NumPy's: of a negative product it is \<open>nan\<close>, and of any
  other product it is the real square root.
\<close>

theorem step_safe_selects:
  "step_safe rho (Some a) (Some b) (Some a_cor) (Some b_cor) eps =
     (if a_cor > eps \<and> b_cor > eps then np_sqrt (Some (a * b))
      else if a_cor > eps \<and> b_cor \<le> eps then Some a
      else if a_cor \<le> eps \<and> b_cor > eps then Some b
      else Some rho) \<and>
   (a_cor > eps \<and> b_cor > eps \<and> 0 \<le> a * b \<longrightarrow>
      step_safe rho (Some a) (Some b) (Some a_cor) (Some b_cor) eps = Some (sqrt (a * b)))"
  by (simp add: step_safe_def fmul_def np_sqrt_def not_less)

theorem step_safe_selects_witness:
  "(1::real) > 1/5 \<and> (1::real) > 1/5 \<and> (0::real) \<le> 1 * 4 \<and>
   step_safe 1 (Some 1) (Some 4) (Some 1) (Some 1) (1/5) = Some 2"
  using step_safe_selects[of 1 1 4 1 1 "1/5"] by (simp add: np_sqrt_def)

text \<open>
  C6. For vectors \<open>p\<close>, \<open>d\<close> with \<open>sum(p*d)\<close> and \<open>sum(p**2)\<close> nonzero, \<open>step_ls\<close>
  returns \<open>min_gradient = sum(p*d)/sum(p**2)\<close> when \<open>2*min_gradient\<close> exceeds
  \<open>steepest_descent = sum(d**2)/sum(p*d)\<close>, and \<open>steepest_descent - min_gradient/2\<close>
  otherwise.
\<close>

theorem step_ls_estimate:
  assumes "vmul p d = Inr pd" and "np_sum pd \<noteq> 0" and "np_sum (sq p) \<noteq> 0"
  shows "step_ls p d =
           Inr (Some (let steepest_descent = np_sum (sq d) / np_sum pd;
                          min_gradient = np_sum pd / np_sum (sq p)
                      in if 2 * min_gradient > steepest_descent then min_gradient
                         else steepest_descent - min_gradient / 2))"
  using step_ls_value[OF assms] by (simp add: Let_def)

theorem step_ls_estimate_witness:
  "vmul [1, 2] [3, 1] = Inr [3, 2] \<and> np_sum [3, 2] \<noteq> 0 \<and> np_sum (sq [1, 2]) \<noteq> 0 \<and>
   step_ls [1, 2] [3, 1] = Inr (Some (3 / 2))"
  using step_ls_estimate[of "[1, 2]" "[3, 1]" "[3, 2]"]
  by (simp add: vmul_def np_sum_def sq_def)

text \<open>
  C7. When one of the four delta vectors has a squared norm of at most the machine
  epsilon, \<open>step_spec\<close> returns \<open>rho\<close> and raises nothing, whatever the other
  arguments are: also where the curvature estimates would raise (shapes that do not
  match) and where the scale would (round index zero).
\<close>

theorem step_spec_small_norm_fallback:
  assumes "np_sum (sq dx) \<le> eps_fl \<or> np_sum (sq dxbar) \<le> eps_fl \<or>
           np_sum (sq dy) \<le> eps_fl \<or> np_sum (sq dyhat) \<le> eps_fl"
  shows "step_spec rho k dx dxbar dy dyhat eps C = Inr (Some rho)"
  using assms by (simp add: step_spec_def small_norm_def)

theorem step_spec_small_norm_fallback_witness:
  "np_sum (sq [0, 0]) \<le> eps_fl \<and> vmul [0, 0] [1, 2, 3] = Inl ValueError \<and>
   step_ls [0, 0] [1, 2, 3] = Inl ValueError \<and>
   step_spec 7 0 [0, 0] [1] [1] [1, 2, 3] (1/5) 1 = Inr (Some 7)"
  using step_spec_small_norm_fallback[of "[0, 0]" "[1]" "[1]" "[1, 2, 3]" 7 0 "1/5" 1]
  by (simp add: np_sum_def sq_def eps_fl_def vmul_def step_ls_def)

text \<open>
  C9. From a step size \<open>rho > 0\<close>, and for a convergence constant \<open>C \<ge> 0\<close>, every
  number that \<open>step_spec\<close> returns is positive, and so is the step size of a variable
  after a round of the worker, adaptation round or not.
\<close>

theorem step_size_stays_positive:
  assumes "0 < rho" and "0 \<le> C"
  shows "(\<forall>r. step_spec rho k dx dxbar dy dyhat eps C = Inr (Some r) \<longrightarrow> 0 < r) \<and>
         (\<forall>v v_old v' v_old'.
            v_rho v = rho \<and>
            update_key shares spectral Tf eps C i xbars_key (v, v_old) = Inr (v', v_old') \<longrightarrow>
            0 < v_rho v')"
proof (intro conjI allI impI)
  fix r assume "step_spec rho k dx dxbar dy dyhat eps C = Inr (Some r)"
  from step_spec_pos[OF assms this] show "0 < r" .
next
  fix v v_old v' v_old'
  assume h: "v_rho v = rho \<and>
             update_key shares spectral Tf eps C i xbars_key (v, v_old) = Inr (v', v_old')"
  from update_key_rho[of shares spectral Tf eps C i xbars_key v v_old v' v_old'] h
  consider "v_rho v' = rho"
    | dx dxbar dy dyhat where "step_spec rho i dx dxbar dy dyhat eps C = Inr (Some (v_rho v'))"
    by auto
  then show "0 < v_rho v'"
  proof cases
    case 1 with assms(1) show ?thesis by simp
  next
    case 2 from step_spec_pos[OF assms this] show ?thesis .
  qed
qed

theorem step_size_stays_positive_witness:
  "(0::real) < 1 \<and> (0::real) \<le> 1 \<and>
   step_spec 1 1 [1] [1] [4] [1] (1/5) 1 = Inr (Some 2) \<and> (0::real) < 2 \<and>
   v_rho \<lparr>v_x = [1], v_xbar = [4], v_y = [0], v_rho = 1, v_yhat = YhatParam [0]\<rparr> = 1 \<and>
   update_key False True 2 (1/5) 1 1 [-1]
     (\<lparr>v_x = [1], v_xbar = [4], v_y = [0], v_rho = 1, v_yhat = YhatParam [0]\<rparr>,
      \<lparr>old_x = [0], old_xbar = [0], old_y = Own [0], old_yhat = [0]\<rparr>) =
   Inr (\<lparr>v_x = [1], v_xbar = [-1], v_y = [2], v_rho = 2, v_yhat = YhatExpr [0] [4]\<rparr>,
        \<lparr>old_x = [1], old_xbar = [-1], old_y = Own [2], old_yhat = [-6]\<rparr>) \<and>
   0 < v_rho \<lparr>v_x = [1], v_xbar = [-1], v_y = [2], v_rho = 2, v_yhat = YhatExpr [0] [4]\<rparr>"
  using step_size_stays_positive[of 1 1 1 "[1]" "[1]" "[4]" "[1]" "1/5" False True 2 1 "[-1]"]
    step_spec_example2 update_key_example
  by simp

text \<open>
  C10. The test on the squared norms does not keep every divisor away from zero. The
  deltas \<open>dx = dxbar = dy = [1, 0]\<close> and \<open>dyhat = [0, 1]\<close> pass it, and
  \<open>sum(dx*dyhat)\<close>, the divisor of the steepest-descent estimate, is zero: \<open>step_ls\<close>
  divides by zero, and \<open>step_spec\<close> goes on and returns a step size.
\<close>

theorem step_ls_zero_divisor_after_guard:
  "\<not> small_norm [1, 0] [1, 0] [1, 0] [0, 1] \<and>
   vmul [1, 0] [0, 1] = Inr [0, 0] \<and> np_sum [0, 0] = 0 \<and>
   fdiv (np_sum (sq [0, 1])) (np_sum [0, 0]) = None \<and>
   step_ls [1, 0] [0, 1] = Inr None \<and>
   step_spec 1 1 [1, 0] [1, 0] [1, 0] [0, 1] (1/5) 10000000000 = Inr (Some 1)"
  by (simp add: step_spec_def num_defs)

section \<open>Properties of the aggregator\<close>

subsection \<open>Failures of the loops\<close>

lemma merge_items_error: "merge_items rho xvals acc = Inl e \<Longrightarrow> e = KeyError"
  by (induction rho xvals acc rule: merge_items.induct) (auto split: option.splits)

lemma merge_items_ok:
  "list_all (\<lambda>(key, val). rho key \<noteq> None) xvals \<Longrightarrow> \<exists>acc'. merge_items rho xvals acc = Inr acc'"
  by (induction rho xvals acc rule: merge_items.induct) (auto split: option.splits)

lemma merge_reports_RuntimeError:
  "merge_reports IU prox_res acc = Inl RuntimeError \<Longrightarrow> \<exists>rep \<in> set prox_res. \<not> feasible IU rep"
proof (induction IU prox_res acc rule: merge_reports.induct)
  case (1 IU acc)
  then show ?case by simp
next
  case (2 IU status rho xvals rest acc)
  show ?case
  proof (cases "status \<in> set IU")
    case True
    then show ?thesis by (simp add: feasible_def)
  next
    case False
    show ?thesis
    proof (cases "merge_items rho xvals acc")
      case (Inl e)
      with False 2(2) merge_items_error[OF Inl] show ?thesis by simp
    next
      case (Inr acc')
      with False 2 show ?thesis by simp
    qed
  qed
qed

lemma merge_reports_fails:
  "\<exists>rep \<in> set prox_res. \<not> feasible IU rep \<Longrightarrow> \<exists>e. merge_reports IU prox_res acc = Inl e"
proof (induction IU prox_res acc rule: merge_reports.induct)
  case (1 IU acc)
  then show ?case by simp
next
  case (2 IU status rho xvals rest acc)
  show ?case
  proof (cases "status \<in> set IU")
    case True
    then show ?thesis by simp
  next
    case False
    show ?thesis
    proof (cases "merge_items rho xvals acc")
      case (Inl e)
      with False show ?thesis by simp
    next
      case (Inr acc')
      from 2(2) False have "\<exists>rep \<in> set rest. \<not> feasible IU rep" by (simp add: feasible_def)
      from 2(1)[OF False Inr this] False Inr show ?thesis by simp
    qed
  qed
qed

lemma merge_reports_raises:
  "list_all has_step_sizes prox_res \<Longrightarrow> \<exists>rep \<in> set prox_res. \<not> feasible IU rep \<Longrightarrow>
     merge_reports IU prox_res acc = Inl RuntimeError"
proof (induction IU prox_res acc rule: merge_reports.induct)
  case (1 IU acc)
  then show ?case by simp
next
  case (2 IU status rho xvals rest acc)
  show ?case
  proof (cases "status \<in> set IU")
    case True
    then show ?thesis by simp
  next
    case False
    from 2(2) have "list_all (\<lambda>(key, val). rho key \<noteq> None) xvals"
      by (simp add: has_step_sizes_def)
    from merge_items_ok[OF this] obtain acc' where a: "merge_items rho xvals acc = Inr acc'"
      by blast
    from 2(3) False have "\<exists>rep \<in> set rest. \<not> feasible IU rep" by (simp add: feasible_def)
    with 2(1)[OF False a] 2(2) False a show ?thesis by simp
  qed
qed

lemma merge_reports_ok:
  "list_all has_step_sizes prox_res \<Longrightarrow> list_all (feasible IU) prox_res \<Longrightarrow>
     \<exists>acc'. merge_reports IU prox_res acc = Inr acc'"
proof (induction IU prox_res acc rule: merge_reports.induct)
  case (1 IU acc)
  then show ?case by simp
next
  case (2 IU status rho xvals rest acc)
  from 2(3) have f: "status \<notin> set IU" by (simp add: feasible_def)
  from 2(2) have "list_all (\<lambda>(key, val). rho key \<noteq> None) xvals"
    by (simp add: has_step_sizes_def)
  from merge_items_ok[OF this] obtain acc' where a: "merge_items rho xvals acc = Inr acc'"
    by blast
  with 2(1)[OF f a] 2(2,3) f show ?case by simp
qed

lemma average_items_error: "average_items rho_sum xmerge = Inl e \<Longrightarrow> e = ValueError"
  by (induction rho_sum xmerge arbitrary: e rule: average_items.induct)
     (auto simp: sum_axis0_def split: sum.splits if_splits)

lemma x_average_RuntimeError_iff:
  "x_average IU prox_res = Inl RuntimeError \<longleftrightarrow>
     merge_reports IU prox_res ([], \<lambda>key. 0) = Inl RuntimeError"
  using average_items_error
  by (fastforce simp: x_average_def split: sum.splits prod.splits)

subsection \<open>What the loops accumulate\<close>

lemma entry_append_at:
  "entry (append_at key v xmerge) k = (if k = key then entry xmerge key @ [v] else entry xmerge k)"
  by (induction key v xmerge rule: append_at.induct) (auto simp: entry_def)

lemma keys_append_at: "fst ` set (append_at key v xmerge) = insert key (fst ` set xmerge)"
  by (induction key v xmerge rule: append_at.induct) auto

lemma nonempty_append_at:
  "list_all (\<lambda>(k, l). l \<noteq> []) xmerge \<Longrightarrow> list_all (\<lambda>(k, l). l \<noteq> []) (append_at key v xmerge)"
  by (induction key v xmerge rule: append_at.induct) auto

lemma item_terms_Nil [simp]: "item_terms rho [] key = []"
  by (simp add: item_terms_def)

lemma item_terms_Cons:
  "item_terms rho ((k, val) # rest) key =
     (if k = key then (the (rho k), val) # item_terms rho rest key else item_terms rho rest key)"
  by (simp add: item_terms_def)

lemma merge_items_entry:
  "merge_items rho xvals (xmerge, rho_sum) = Inr (xmerge', rho_sum') \<Longrightarrow>
     entry xmerge' key = entry xmerge key @ map (\<lambda>(r, val). smul r val) (item_terms rho xvals key) \<and>
     rho_sum' key = rho_sum key + sum_list (map fst (item_terms rho xvals key)) \<and>
     (list_all (\<lambda>(k, l). l \<noteq> []) xmerge \<longrightarrow> list_all (\<lambda>(k, l). l \<noteq> []) xmerge')"
proof (induction xvals arbitrary: xmerge rho_sum)
  case Nil
  then show ?case by simp
next
  case (Cons item rest)
  obtain k val where item: "item = (k, val)" by (cases item)
  from Cons.prems item obtain r where r: "rho k = Some r"
    and rec: "merge_items rho rest (append_at k (smul r val) xmerge, rho_sum(k := rho_sum k + r))
                = Inr (xmerge', rho_sum')"
    by (auto split: option.splits)
  from Cons.IH[OF rec] show ?case
    by (auto simp: item item_terms_Cons entry_append_at r nonempty_append_at)
qed

lemma report_terms_Nil [simp]: "report_terms [] key = []"
  by (simp add: report_terms_def)

lemma report_terms_Cons:
  "report_terms ((status, rho, xvals) # rest) key = item_terms rho xvals key @ report_terms rest key"
  by (simp add: report_terms_def)

lemma merge_reports_entry:
  "merge_reports IU prox_res (xmerge, rho_sum) = Inr (xmerge', rho_sum') \<Longrightarrow>
     entry xmerge' key = entry xmerge key @ map (\<lambda>(r, val). smul r val) (report_terms prox_res key) \<and>
     rho_sum' key = rho_sum key + sum_list (map fst (report_terms prox_res key)) \<and>
     (list_all (\<lambda>(k, l). l \<noteq> []) xmerge \<longrightarrow> list_all (\<lambda>(k, l). l \<noteq> []) xmerge')"
proof (induction prox_res arbitrary: xmerge rho_sum)
  case Nil
  then show ?case by simp
next
  case (Cons rep rest)
  obtain status rho xvals where rep: "rep = (status, rho, xvals)" by (cases rep)
  from Cons.prems rep obtain xm1 rs1 where
    step: "merge_items rho xvals (xmerge, rho_sum) = Inr (xm1, rs1)"
    and rec: "merge_reports IU rest (xm1, rs1) = Inr (xmerge', rho_sum')"
    by (auto split: if_splits sum.splits)
  from merge_items_entry[OF step, of key] Cons.IH[OF rec]
  show ?case by (simp add: rep report_terms_Cons)
qed


lemma average_items_lookup:
  "average_items rho_sum xmerge = Inr m \<Longrightarrow>
     map_of m key =
       map_option (\<lambda>l. vdiv (case sum_axis0 l of Inr s \<Rightarrow> s | Inl e \<Rightarrow> []) (rho_sum key))
         (map_of xmerge key)"
proof (induction xmerge arbitrary: m)
  case Nil
  then show ?case by auto
next
  case (Cons a xmerge)
  obtain k l where a: "a = (k, l)" by (cases a)
  from Cons.prems a obtain s m' where s: "sum_axis0 l = Inr s"
    and m': "average_items rho_sum xmerge = Inr m'" and m: "m = (k, vdiv s (rho_sum k)) # m'"
    by (auto split: sum.splits)
  from Cons.IH[OF m'] show ?case by (simp add: a m s)
qed

lemma average_items_ok:
  "list_all (\<lambda>(k, l). \<exists>s. sum_axis0 l = Inr s) xmerge \<Longrightarrow> \<exists>m. average_items rho_sum xmerge = Inr m"
  by (induction xmerge) (auto split: sum.splits)

lemma map_of_entry:
  "list_all (\<lambda>(k, l). l \<noteq> []) xmerge \<Longrightarrow>
     map_of xmerge key = (if entry xmerge key = [] then None else Some (entry xmerge key))"
proof (cases "map_of xmerge key")
  case None
  then show ?thesis by (simp add: entry_def)
next
  case (Some l)
  assume "list_all (\<lambda>(k, l). l \<noteq> []) xmerge"
  moreover from Some have "(key, l) \<in> set xmerge" by (rule map_of_SomeD)
  ultimately have "l \<noteq> []" by (auto simp: list_all_iff)
  with Some show ?thesis by (simp add: entry_def)
qed

lemma sum_axis0_terms:
  assumes "terms \<noteq> []" and "list_all (\<lambda>(r, val). length val = n) terms"
  shows "sum_axis0 (map (\<lambda>(r, val). smul r val) terms) =
           Inr (map (\<lambda>i. \<Sum>(r, val) \<leftarrow> terms. r * val ! i) [0..<n])"
proof -
  let ?l = "map (\<lambda>(r, val). smul r val) terms"
  have len: "\<forall>v \<in> set ?l. length v = n"
    using assms(2) by (auto simp: list_all_iff smul_def)
  moreover have "hd ?l \<in> set ?l" using assms(1) by (intro hd_in_set) simp
  ultimately have hd: "length (hd ?l) = n" by blast
  have "sum_list (map (\<lambda>v. v ! i) ?l) = (\<Sum>(r, val) \<leftarrow> terms. r * val ! i)" if "i < n" for i
  proof -
    have "map (\<lambda>v. v ! i) ?l = map (\<lambda>(r, val). r * val ! i) terms"
      using assms(2) that by (auto simp: list_all_iff smul_def)
    then show ?thesis by (simp only:)
  qed
  then have "map (\<lambda>i. sum_list (map (\<lambda>v. v ! i) ?l)) [0..<n] =
             map (\<lambda>i. \<Sum>(r, val) \<leftarrow> terms. r * val ! i) [0..<n]"
    by simp
  with len hd show ?thesis by (simp add: sum_axis0_def list_all_iff)
qed


lemma shaped_append_at:
  "list_all (\<lambda>(k, l). list_all (\<lambda>v. length v = shape k) l) xmerge \<Longrightarrow> length v = shape key \<Longrightarrow>
     list_all (\<lambda>(k, l). list_all (\<lambda>v. length v = shape k) l) (append_at key v xmerge)"
  by (induction key v xmerge rule: append_at.induct) auto

lemma merge_items_shaped:
  "merge_items rho xvals (xmerge, rho_sum) = Inr (xmerge', rho_sum') \<Longrightarrow>
     list_all (\<lambda>(key, val). length val = shape key) xvals \<Longrightarrow>
     list_all (\<lambda>(k, l). list_all (\<lambda>v. length v = shape k) l) xmerge \<Longrightarrow>
     list_all (\<lambda>(k, l). list_all (\<lambda>v. length v = shape k) l) xmerge'"
proof (induction xvals arbitrary: xmerge rho_sum)
  case Nil
  then show ?case by simp
next
  case (Cons item rest)
  obtain k val where item: "item = (k, val)" by (cases item)
  from Cons.prems(1) item obtain r where r: "rho k = Some r"
    and rec: "merge_items rho rest (append_at k (smul r val) xmerge, rho_sum(k := rho_sum k + r))
                = Inr (xmerge', rho_sum')"
    by (auto split: option.splits)
  from Cons.prems(2) item have len: "length (smul r val) = shape k"
    and rest: "list_all (\<lambda>(key, val). length val = shape key) rest"
    by (simp_all add: smul_def)
  from Cons.IH[OF rec rest shaped_append_at[OF Cons.prems(3) len]] show ?case .
qed

lemma well_formed_ConsD:
  assumes "list_all (well_formed shape) ((status, rho, xvals) # rest)"
  shows "has_step_sizes (status, rho, xvals)" and "distinct (map fst xvals)"
    and "list_all (\<lambda>(key, val). length val = shape key) xvals"
    and "list_all (well_formed shape) rest"
proof -
  from assms have h: "well_formed shape (status, rho, xvals)"
    and r: "list_all (well_formed shape) rest"
    by simp_all
  from r show "list_all (well_formed shape) rest" .
  from h show "has_step_sizes (status, rho, xvals)" and "distinct (map fst xvals)"
    and "list_all (\<lambda>(key, val). length val = shape key) xvals"
    by (simp_all add: well_formed_def)
qed

lemma merge_reports_shaped:
  "merge_reports IU prox_res (xmerge, rho_sum) = Inr (xmerge', rho_sum') \<Longrightarrow>
     list_all (well_formed shape) prox_res \<Longrightarrow>
     list_all (\<lambda>(k, l). list_all (\<lambda>v. length v = shape k) l) xmerge \<Longrightarrow>
     list_all (\<lambda>(k, l). list_all (\<lambda>v. length v = shape k) l) xmerge'"
proof (induction prox_res arbitrary: xmerge rho_sum)
  case Nil
  then show ?case by simp
next
  case (Cons rep rest)
  obtain status rho xvals where rep: "rep = (status, rho, xvals)" by (cases rep)
  from Cons.prems(1) rep obtain xm1 rs1 where
    step: "merge_items rho xvals (xmerge, rho_sum) = Inr (xm1, rs1)"
    and rec: "merge_reports IU rest (xm1, rs1) = Inr (xmerge', rho_sum')"
    by (auto split: if_splits sum.splits)
  from Cons.prems(2) have wf: "list_all (well_formed shape) ((status, rho, xvals) # rest)"
    unfolding rep .
  note sh = well_formed_ConsD(3)[OF wf] and rest = well_formed_ConsD(4)[OF wf]
  from Cons.IH[OF rec rest merge_items_shaped[OF step sh Cons.prems(3)]] show ?case .
qed

lemma sum_axis0_shaped:
  assumes "l \<noteq> []" and "list_all (\<lambda>v. length v = n) l"
  shows "\<exists>s. sum_axis0 l = Inr s"
proof -
  from assms have "length (hd l) = n" by (cases l) simp_all
  with assms(2) show ?thesis by (simp add: sum_axis0_def)
qed

lemma item_terms_distinct:
  "distinct (map fst xvals) \<Longrightarrow>
     item_terms rho xvals key =
       (if key \<in> fst ` set xvals then [(the (rho key), the (map_of xvals key))] else [])"
proof (induction xvals)
  case Nil
  then show ?case by simp
next
  case (Cons item rest)
  obtain k val where item: "item = (k, val)" by (cases item)
  with Cons show ?case by (auto simp: item_terms_Cons)
qed

lemma report_terms_owners:
  "list_all (well_formed shape) prox_res \<Longrightarrow>
     report_terms prox_res key = map (\<lambda>rep. (rho_of key rep, x_of key rep)) (owners key prox_res)"
proof (induction prox_res)
  case Nil
  then show ?case by (simp add: owners_def)
next
  case (Cons rep rest)
  obtain status rho xvals where rep: "rep = (status, rho, xvals)" by (cases rep)
  from Cons.prems have wf: "list_all (well_formed shape) ((status, rho, xvals) # rest)"
    unfolding rep .
  note d = well_formed_ConsD(2)[OF wf] and rest = well_formed_ConsD(4)[OF wf]
  from Cons.IH[OF rest] item_terms_distinct[OF d, of rho key] show ?case
    by (simp add: rep report_terms_Cons owners_def rho_of_def x_of_def)
qed

lemma item_terms_lengths:
  "list_all (\<lambda>(key, val). length val = shape key) xvals \<Longrightarrow>
     list_all (\<lambda>(r, val). length val = shape key) (item_terms rho xvals key)"
  by (induction xvals) (auto simp: item_terms_Cons)

lemma report_terms_lengths:
  "list_all (well_formed shape) prox_res \<Longrightarrow>
     list_all (\<lambda>(r, val). length val = shape key) (report_terms prox_res key)"
proof (induction prox_res)
  case Nil
  then show ?case by simp
next
  case (Cons rep rest)
  obtain status rho xvals where rep: "rep = (status, rho, xvals)" by (cases rep)
  from Cons.prems have wf: "list_all (well_formed shape) ((status, rho, xvals) # rest)"
    unfolding rep .
  note sh = well_formed_ConsD(3)[OF wf] and rest = well_formed_ConsD(4)[OF wf]
  from Cons.IH[OF rest] item_terms_lengths[OF sh, of key rho] show ?case
    by (simp add: rep report_terms_Cons)
qed

lemma x_average_entries:
  assumes f: "list_all (feasible IU) prox_res" and wf: "list_all (well_formed shape) prox_res"
  shows "\<exists>m. x_average IU prox_res = Inr m \<and>
           (\<forall>key. map_of m key =
              (let terms = report_terms prox_res key
               in if terms = [] then None
                  else Some (vdiv (map (\<lambda>i. \<Sum>(r, val) \<leftarrow> terms. r * val ! i) [0..<shape key])
                                  (sum_list (map fst terms)))))"
proof -
  have hs: "list_all has_step_sizes prox_res"
    using wf by (auto simp: list_all_iff well_formed_def)
  from merge_reports_ok[OF hs f] obtain xm rs where
    mr: "merge_reports IU prox_res ([], \<lambda>key. 0) = Inr (xm, rs)"
    by (metis surj_pair)
  have ent: "entry xm key = map (\<lambda>(r, val). smul r val) (report_terms prox_res key)"
    and rs: "rs key = sum_list (map fst (report_terms prox_res key))" for key
    using merge_reports_entry[OF mr, of key] by (simp_all add: entry_def)
  have ne: "list_all (\<lambda>(k, l). l \<noteq> []) xm"
    using merge_reports_entry[OF mr] by simp
  have sh: "list_all (\<lambda>(k, l). list_all (\<lambda>v. length v = shape k) l) xm"
    using merge_reports_shaped[OF mr wf] by simp
  have "list_all (\<lambda>(k, l). \<exists>s. sum_axis0 l = Inr s) xm"
    using ne sh sum_axis0_shaped by (fastforce simp: list_all_iff)
  from average_items_ok[OF this] obtain m where m: "average_items rs xm = Inr m" by blast
  have xa: "x_average IU prox_res = Inr m" by (simp add: x_average_def mr m)
  have "map_of m key =
          (let terms = report_terms prox_res key
           in if terms = [] then None
              else Some (vdiv (map (\<lambda>i. \<Sum>(r, val) \<leftarrow> terms. r * val ! i) [0..<shape key])
                              (sum_list (map fst terms))))" for key
  proof (cases "report_terms prox_res key = []")
    case True
    with ent[of key] map_of_entry[OF ne, of key] average_items_lookup[OF m, of key]
    show ?thesis by simp
  next
    case False
    from sum_axis0_terms[OF False report_terms_lengths[OF wf, of key]]
    have "sum_axis0 (entry xm key) =
            Inr (map (\<lambda>i. \<Sum>(r, val) \<leftarrow> report_terms prox_res key. r * val ! i) [0..<shape key])"
      by (simp add: ent)
    moreover have "map_of xm key = Some (entry xm key)"
      using map_of_entry[OF ne, of key] ent[of key] False by simp
    ultimately show ?thesis
      using average_items_lookup[OF m, of key] False by (simp add: rs Let_def)
  qed
  with xa show ?thesis by blast
qed


lemma sum_terms_owners:
  assumes "list_all (well_formed shape) prox_res"
  shows "(\<Sum>(r, val) \<leftarrow> report_terms prox_res key. r * val ! i) =
           (\<Sum>rep \<leftarrow> owners key prox_res. rho_of key rep * x_of key rep ! i)"
    and "sum_list (map fst (report_terms prox_res key)) =
           (\<Sum>rep \<leftarrow> owners key prox_res. rho_of key rep)"
    and "report_terms prox_res key = [] \<longleftrightarrow> owners key prox_res = []"
  by (simp_all add: report_terms_owners[OF assms] comp_def)

lemma equal_weights_mean:
  fixes c :: real
  assumes "c \<noteq> 0" and "reps \<noteq> []" and "list_all (\<lambda>rep. w rep = c) reps"
  shows "fdiv (\<Sum>rep \<leftarrow> reps. w rep * g rep) (\<Sum>rep \<leftarrow> reps. w rep) =
           Some ((\<Sum>rep \<leftarrow> reps. g rep) / real (length reps))"
proof -
  have n: "(\<Sum>rep \<leftarrow> reps. w rep * g rep) = c * (\<Sum>rep \<leftarrow> reps. g rep)"
    using assms(3) by (induction reps) (simp_all add: algebra_simps)
  have d: "(\<Sum>rep \<leftarrow> reps. w rep) = c * real (length reps)"
    using assms(3) by (induction reps) (simp_all add: algebra_simps)
  have "real (length reps) \<noteq> 0" using assms(2) by simp
  with assms(1) show ?thesis by (simp add: n d fdiv_def)
qed

lemmas agg_defs = x_average_def sum_axis0_def vdiv_def smul_def feasible_def well_formed_def
  has_step_sizes_def owners_def rho_of_def x_of_def weighted_average_def fdiv_def

lemma x_average_example:
  "x_average [''infeasible'', ''unbounded'']
     [(''optimal'', [0::nat \<mapsto> 1], [(0, [5])]), (''optimal'', [0 \<mapsto> 1], [(0, [1])])] =
   Inr [(0, Some [3])]"
  by (simp add: agg_defs)

subsection \<open>The claims on the aggregator\<close>

text \<open>
  C2. For reports none of which has an infeasible or unbounded status, and which are as
  the workers build them, \<open>x_average\<close> returns a mapping whose keys are the variable ids
  that occur in some report. The entry of an id has the shape of the variable, and its
  component \<open>i\<close> is \<open>sum(rho * x[i]) / sum(rho)\<close> over exactly the reports that contain
  the id; where these reports have the same nonzero step size, it is the plain mean of
  their values.
\<close>

theorem x_average_weighted:
  assumes "list_all (feasible IU) prox_res" and "list_all (well_formed shape) prox_res"
  shows "\<exists>m. x_average IU prox_res = Inr m \<and>
           (\<forall>key. (owners key prox_res = [] \<longrightarrow> map_of m key = None) \<and>
                  (owners key prox_res \<noteq> [] \<longrightarrow>
                     (\<exists>e. map_of m key = Some e \<and>
                          (\<forall>v. e = Some v \<longrightarrow> length v = shape key) \<and>
                          (\<forall>i < shape key.
                             map_option (\<lambda>v. v ! i) e = weighted_average key prox_res i \<and>
                             (\<forall>c. c \<noteq> 0 \<and> list_all (\<lambda>rep. rho_of key rep = c) (owners key prox_res) \<longrightarrow>
                                map_option (\<lambda>v. v ! i) e =
                                  Some ((\<Sum>rep \<leftarrow> owners key prox_res. x_of key rep ! i) /
                                        real (length (owners key prox_res))))))))"
proof -
  from x_average_entries[OF assms] obtain m where xa: "x_average IU prox_res = Inr m"
    and look: "\<And>key. map_of m key =
              (let terms = report_terms prox_res key
               in if terms = [] then None
                  else Some (vdiv (map (\<lambda>i. \<Sum>(r, val) \<leftarrow> terms. r * val ! i) [0..<shape key])
                                  (sum_list (map fst terms))))"
    by blast
  note so = sum_terms_owners[OF assms(2)]
  have "(owners key prox_res = [] \<longrightarrow> map_of m key = None) \<and>
        (owners key prox_res \<noteq> [] \<longrightarrow>
           (\<exists>e. map_of m key = Some e \<and>
                (\<forall>v. e = Some v \<longrightarrow> length v = shape key) \<and>
                (\<forall>i < shape key.
                   map_option (\<lambda>v. v ! i) e = weighted_average key prox_res i \<and>
                   (\<forall>c. c \<noteq> 0 \<and> list_all (\<lambda>rep. rho_of key rep = c) (owners key prox_res) \<longrightarrow>
                      map_option (\<lambda>v. v ! i) e =
                        Some ((\<Sum>rep \<leftarrow> owners key prox_res. x_of key rep ! i) /
                              real (length (owners key prox_res)))))))" for key
  proof (cases "owners key prox_res = []")
    case True
    with look[of key] so(3)[of key] show ?thesis by simp
  next
    case False
    let ?S = "\<lambda>i. \<Sum>rep \<leftarrow> owners key prox_res. rho_of key rep * x_of key rep ! i"
    let ?R = "\<Sum>rep \<leftarrow> owners key prox_res. rho_of key rep"
    let ?e = "vdiv (map ?S [0..<shape key]) ?R"
    have e: "map_of m key = Some ?e"
      using look[of key] so(3)[of key] False by (simp add: Let_def so(1,2))
    have len: "length v = shape key" if "?e = Some v" for v
      using that by (auto simp: vdiv_def split: if_splits)
    have avg: "map_option (\<lambda>v. v ! i) ?e = weighted_average key prox_res i" if "i < shape key" for i
      using that by (auto simp: vdiv_def weighted_average_def fdiv_def)
    have mean: "map_option (\<lambda>v. v ! i) ?e =
                  Some ((\<Sum>rep \<leftarrow> owners key prox_res. x_of key rep ! i) /
                        real (length (owners key prox_res)))"
      if "i < shape key" "c \<noteq> 0" "list_all (\<lambda>rep. rho_of key rep = c) (owners key prox_res)" for i c
      using avg[OF that(1)] equal_weights_mean[OF that(2) False that(3), of "\<lambda>rep. x_of key rep ! i"]
      by (simp add: weighted_average_def)
    from e len avg mean False show ?thesis by blast
  qed
  with xa show ?thesis by blast
qed

theorem x_average_weighted_witness:
  "list_all (feasible [''infeasible'', ''unbounded''])
     [(''optimal'', [0::nat \<mapsto> 1], [(0, [5])]), (''optimal'', [0 \<mapsto> 1], [(0, [1])])] \<and>
   list_all (well_formed (\<lambda>key. 1))
     [(''optimal'', [0::nat \<mapsto> 1], [(0, [5])]), (''optimal'', [0 \<mapsto> 1], [(0, [1])])] \<and>
   x_average [''infeasible'', ''unbounded'']
     [(''optimal'', [0::nat \<mapsto> 1], [(0, [5])]), (''optimal'', [0 \<mapsto> 1], [(0, [1])])] =
     Inr [(0, Some [3])] \<and>
   owners 0 [(''optimal'', [0::nat \<mapsto> 1], [(0, [5])]), (''optimal'', [0 \<mapsto> 1], [(0, [1])])] \<noteq> [] \<and>
   weighted_average 0
     [(''optimal'', [0::nat \<mapsto> 1], [(0, [5])]), (''optimal'', [0 \<mapsto> 1], [(0, [1])])] 0 = Some 3"
  using x_average_weighted[of "[''infeasible'', ''unbounded'']"
      "[(''optimal'', [0::nat \<mapsto> 1], [(0, [5])]), (''optimal'', [0 \<mapsto> 1], [(0, [1])])]" "\<lambda>key. 1"]
    x_average_example
  by (simp add: agg_defs)

text \<open>
  C3. \<open>x_average\<close> raises the RuntimeError of an infeasible or unbounded subproblem
  only if some report has such a status, and with such a report it never returns a
  mapping. For reports that hold a step size for each of their values, as the workers'
  reports do, it raises this error if and only if some report has such a status,
  whatever the other reports are.
\<close>

theorem x_average_infeasible:
  "(x_average IU prox_res = Inl RuntimeError \<longrightarrow> (\<exists>rep \<in> set prox_res. \<not> feasible IU rep)) \<and>
   ((\<exists>rep \<in> set prox_res. \<not> feasible IU rep) \<longrightarrow> (\<exists>e. x_average IU prox_res = Inl e)) \<and>
   (list_all has_step_sizes prox_res \<longrightarrow>
      (x_average IU prox_res = Inl RuntimeError \<longleftrightarrow> (\<exists>rep \<in> set prox_res. \<not> feasible IU rep)))"
proof (intro conjI impI)
  assume "x_average IU prox_res = Inl RuntimeError"
  then show "\<exists>rep \<in> set prox_res. \<not> feasible IU rep"
    using merge_reports_RuntimeError by (simp add: x_average_RuntimeError_iff) blast
next
  assume "\<exists>rep \<in> set prox_res. \<not> feasible IU rep"
  from merge_reports_fails[OF this] obtain e where
    "merge_reports IU prox_res ([], \<lambda>key. 0) = Inl e" by blast
  then show "\<exists>e. x_average IU prox_res = Inl e" by (simp add: x_average_def)
next
  assume hs: "list_all has_step_sizes prox_res"
  show "x_average IU prox_res = Inl RuntimeError \<longleftrightarrow> (\<exists>rep \<in> set prox_res. \<not> feasible IU rep)"
  proof
    assume "x_average IU prox_res = Inl RuntimeError"
    then have "merge_reports IU prox_res ([], \<lambda>key. 0) = Inl RuntimeError"
      by (simp add: x_average_RuntimeError_iff)
    then show "\<exists>rep \<in> set prox_res. \<not> feasible IU rep" by (rule merge_reports_RuntimeError)
  next
    assume "\<exists>rep \<in> set prox_res. \<not> feasible IU rep"
    from merge_reports_raises[OF hs this]
    show "x_average IU prox_res = Inl RuntimeError" by (simp add: x_average_RuntimeError_iff)
  qed
qed

theorem x_average_infeasible_witness:
  "list_all has_step_sizes
     [(''optimal'', [0::nat \<mapsto> 1], [(0, [5])]), (''infeasible'', Map.empty, [])] \<and>
   (\<exists>rep \<in> set [(''optimal'', [0::nat \<mapsto> 1], [(0, [5::real])]), (''infeasible'', Map.empty, [])].
      \<not> feasible [''infeasible'', ''unbounded''] rep) \<and>
   x_average [''infeasible'', ''unbounded'']
     [(''optimal'', [0::nat \<mapsto> 1], [(0, [5])]), (''infeasible'', Map.empty, [])] = Inl RuntimeError"
  using x_average_infeasible[of "[''infeasible'', ''unbounded'']"
      "[(''optimal'', [0::nat \<mapsto> 1], [(0, [5])]), (''infeasible'', Map.empty, [])]"]
  by (simp add: agg_defs)

section \<open>Properties of the stopping rule\<close>



section \<open>Properties of the worker's round\<close>

lemma np_sum_sq_vsub_self: "np_sum (sq (vsub u u)) = 0"
  unfolding np_sum_def sq_def vsub_def by (induction u) simp_all

text \<open>
  If the baseline of \<open>y\<close> is the parameter's own array, the delta \<open>dy\<close> of an
  adaptation round is zero, and the round leaves the step size as it is.
\<close>

lemma shared_baseline_keeps_rho:
  assumes "spectral" and "Tf \<noteq> 0" and "i mod Tf = 1" and "old_y v_old = Shared"
  shows "\<exists>v' v_old'. update_key shares spectral Tf eps C i xbars_key (v, v_old) = Inr (v', v_old') \<and>
           v_rho v' = v_rho v"
proof -
  have "small_norm dx dxbar (vsub u u) dyhat" for dx dxbar u dyhat
    using eps_fl_pos by (simp add: small_norm_def np_sum_sq_vsub_self)
  then have "step_spec rho i dx dxbar (vsub u u) dyhat eps C = Inr (Some rho)" for rho dx dxbar u dyhat
    by (simp add: step_spec_def)
  with assms show ?thesis
    by (simp add: update_key_def deltas_def deref_def Let_def dual_update_rho)
qed

lemma step_spec_example4: "step_spec 1 1 [1] [3] [4] [3] (1/5) 1 = Inr (Some 2)"
  by (simp add: step_spec_def num_defs)

lemma step_spec_example5: "step_spec 1 1 [1] [3] [4] [-1] (1/5) 1 = Inr (Some (4/3))"
  by (simp add: step_spec_def num_defs)

lemma step_spec_example6: "step_spec 1 1 [1] [-3] [4] [-1] (1/5) 1 = Inr (Some 1)"
  by (simp add: step_spec_def num_defs)

lemma step_spec_example7: "step_spec 2 3 [4] [1] [0] [36] (1/5) 1 = Inr (Some 2)"
  by (simp add: step_spec_def num_defs)

lemma step_spec_example8: "step_spec 2 3 [4] [-1] [24] [21] (1/5) 1 = Inr (Some (20/9))"
  by (simp add: step_spec_def num_defs)

text \<open>
  C8. On an adaptation round the worker is to take \<open>yhat = y_old + rho*(x - xbar_old)\<close>
  from the \<open>y\<close> and \<open>xbar\<close> of before the update, call \<open>step_spec\<close> with the deltas of
  \<open>x\<close>, \<open>xbar\<close>, \<open>y\<close>, \<open>yhat\<close> (current value minus the snapshot of the previous
  adaptation), store the result as \<open>rho\<close> and snapshot the current values. The code
  does not, as two adaptation rounds of one variable show (period 2, threshold 0.2,
  \<open>C = 1\<close>, \<open>shares = True\<close>).

  Round 1 starts from \<open>x = [1]\<close>, \<open>xbar = [2]\<close>, \<open>y = [0]\<close>, \<open>rho = 1\<close>, a zero baseline
  and the consensus value \<open>[-3]\<close>. Line 286 makes \<open>y = [4]\<close> in place, so \<open>y_old\<close> reads
  \<open>[4]\<close> and \<open>yhat\<close> is \<open>[3]\<close>, not the \<open>[-1]\<close> that the \<open>y\<close> of before the update gives.
  The deltas are \<open>([1], [3], [4], [3])\<close> and the new step size is \<open>2\<close>. With the \<open>yhat\<close>
  of the specification the step size would be \<open>4/3\<close>; with all four deltas of the
  specification (\<open>dxbar = [-3]\<close>, the code taking the snapshot minus the current
  \<open>xbar\<close>) it would be \<open>1\<close>. The baseline of \<open>yhat\<close> becomes \<open>[2]\<close>, the expression
  read again with the new step size, and the baseline of \<open>y\<close> is the parameter's array.

  Round 3 starts from \<open>x = [5]\<close>, \<open>xbar = [0]\<close>, \<open>y = [10]\<close>, \<open>rho = 2\<close> and the
  consensus value \<open>[-4]\<close>. Now \<open>y = [28]\<close>, and \<open>dy\<close> is \<open>[0]\<close>, not \<open>[24]\<close>: the
  baseline has moved with \<open>y\<close>. The guard of \<open>step_spec\<close> returns the step size \<open>2\<close>
  unchanged, where the deltas of the specification give \<open>20/9\<close>.
\<close>

theorem update_key_reads_updated_y:
  "update_key True True 2 (1/5) 1 1 [-3]
     (\<lparr>v_x = [1], v_xbar = [2], v_y = [0], v_rho = 1, v_yhat = YhatParam [0]\<rparr>,
      \<lparr>old_x = [0], old_xbar = [0], old_y = Own [0], old_yhat = [0]\<rparr>) =
   Inr (\<lparr>v_x = [1], v_xbar = [-3], v_y = [4], v_rho = 2, v_yhat = YhatExpr [4] [2]\<rparr>,
        \<lparr>old_x = [1], old_xbar = [-3], old_y = Shared, old_yhat = [2]\<rparr>) \<and>
   yhat_value \<lparr>v_x = [1], v_xbar = [-3], v_y = [4], v_rho = 1, v_yhat = YhatExpr [4] [2]\<rparr> = [3] \<and>
   claimed_yhat \<lparr>v_x = [1], v_xbar = [2], v_y = [0], v_rho = 1, v_yhat = YhatParam [0]\<rparr> = [-1] \<and>
   deltas \<lparr>v_x = [1], v_xbar = [-3], v_y = [4], v_rho = 1, v_yhat = YhatExpr [4] [2]\<rparr>
     \<lparr>old_x = [0], old_xbar = [0], old_y = Own [0], old_yhat = [0]\<rparr> = ([1], [3], [4], [3]) \<and>
   claimed_deltas [-3] \<lparr>v_x = [1], v_xbar = [2], v_y = [0], v_rho = 1, v_yhat = YhatParam [0]\<rparr>
     [0] [0] [0] [0] = ([1], [-3], [4], [-1]) \<and>
   step_spec 1 1 [1] [3] [4] [3] (1/5) 1 = Inr (Some 2) \<and>
   step_spec 1 1 [1] [3] [4] [-1] (1/5) 1 = Inr (Some (4/3)) \<and>
   step_spec 1 1 [1] [-3] [4] [-1] (1/5) 1 = Inr (Some 1) \<and>
   update_key True True 2 (1/5) 1 3 [-4]
     (\<lparr>v_x = [5], v_xbar = [0], v_y = [10], v_rho = 2, v_yhat = YhatExpr [4] [2]\<rparr>,
      \<lparr>old_x = [1], old_xbar = [-3], old_y = Shared, old_yhat = [2]\<rparr>) =
   Inr (\<lparr>v_x = [5], v_xbar = [-4], v_y = [28], v_rho = 2, v_yhat = YhatExpr [28] [0]\<rparr>,
        \<lparr>old_x = [5], old_xbar = [-4], old_y = Shared, old_yhat = [38]\<rparr>) \<and>
   deltas \<lparr>v_x = [5], v_xbar = [-4], v_y = [28], v_rho = 2, v_yhat = YhatExpr [28] [0]\<rparr>
     \<lparr>old_x = [1], old_xbar = [-3], old_y = Shared, old_yhat = [2]\<rparr> = ([4], [1], [0], [36]) \<and>
   claimed_deltas [-4] \<lparr>v_x = [5], v_xbar = [0], v_y = [10], v_rho = 2, v_yhat = YhatExpr [4] [2]\<rparr>
     [1] [-3] [4] [-1] = ([4], [-1], [24], [21]) \<and>
   step_spec 2 3 [4] [1] [0] [36] (1/5) 1 = Inr (Some 2) \<and>
   step_spec 2 3 [4] [-1] [24] [21] (1/5) 1 = Inr (Some (20/9))"
  by (simp add: worker_defs claimed_yhat_def claimed_deltas_def Let_def
      step_spec_example4 step_spec_example5 step_spec_example6
      step_spec_example7 step_spec_example8)

end
